theory Spec2Isabelle
  imports Main "HOL-Library.Multiset"
begin

section \<open>Strings, as the Python 2 byte strings of utils.py\<close>

text \<open>
  utils.py is Python 2 (\<^verbatim>\<open>print >> stderr\<close>): \<^verbatim>\<open>str\<close> is a byte string, modelled as
  \<^typ>\<open>string\<close>. The two characters the code depends on are named here.
\<close>

definition TAB :: char where
  "TAB = CHR 0x09"

definition NL :: char where
  "NL = CHR 0x0A"

text \<open>\<^verbatim>\<open>str.isspace\<close> on one byte, C locale: space, \<^verbatim>\<open>\t \n \v \f \r\<close>.\<close>

definition isspace :: "char \<Rightarrow> bool" where
  "isspace c = (c = CHR '' '' \<or> c = CHR 0x09 \<or> c = CHR 0x0A \<or> c = CHR 0x0B
                \<or> c = CHR 0x0C \<or> c = CHR 0x0D)"

text \<open>\<^verbatim>\<open>s.strip()\<close>: whitespace removed at both ends.\<close>

definition strip :: "string \<Rightarrow> string" where
  "strip s = rev (dropWhile isspace (rev (dropWhile isspace s)))"

text \<open>
  \<^verbatim>\<open>s.split(sep)\<close> for a one-character separator: every occurrence splits, adjacent
  separators give empty fields, and the empty string gives one empty field.
\<close>

fun split :: "char \<Rightarrow> string \<Rightarrow> string list" where
  "split sep [] = [[]]"
| "split sep (c # cs) =
     (if c = sep then [] # split sep cs
      else (case split sep cs of
              [] \<Rightarrow> [[c]]
            | f # fs \<Rightarrow> (c # f) # fs))"

text \<open>\<^verbatim>\<open>sep.join(xs)\<close>.\<close>

fun join :: "string \<Rightarrow> string list \<Rightarrow> string" where
  "join sep [] = []"
| "join sep [x] = x"
| "join sep (x # y # ys) = x @ sep @ join sep (y # ys)"

subsection \<open>Integers to and from decimal text\<close>

text \<open>The value of an ASCII digit (codes 48 to 57).\<close>

definition digit_of :: "char \<Rightarrow> nat option" where
  "digit_of c =
     (let k = (of_char c :: nat)
      in if 48 \<le> k \<and> k \<le> 57 then Some (k - 48) else None)"

fun digits_value :: "nat \<Rightarrow> string \<Rightarrow> nat option" where
  "digits_value acc [] = Some acc"
| "digits_value acc (c # cs) =
     (case digit_of c of
        None \<Rightarrow> None
      | Some d \<Rightarrow> digits_value (10 * acc + d) cs)"

definition parse_digits :: "string \<Rightarrow> nat option" where
  "parse_digits s = (if s = [] then None else digits_value 0 s)"

text \<open>
  \<^verbatim>\<open>int(s)\<close> on a byte string, base 10: optional whitespace around, an optional sign,
  then one or more decimal digits; anything else raises ValueError (None here). The
  result is unbounded (Python promotes to long).
\<close>

definition py_int :: "string \<Rightarrow> int option" where
  "py_int s =
     (case strip s of
        [] \<Rightarrow> None
      | c # cs \<Rightarrow>
          if c = CHR ''-'' then map_option (\<lambda>n. - int n) (parse_digits cs)
          else if c = CHR ''+'' then map_option int (parse_digits cs)
          else map_option int (parse_digits (c # cs)))"

definition digit_char :: "nat \<Rightarrow> char" where
  "digit_char d = char_of (48 + d)"

fun nat_digits :: "nat \<Rightarrow> string" where
  "nat_digits n = (if n < 10 then [digit_char n] else nat_digits (n div 10) @ [digit_char (n mod 10)])"

declare nat_digits.simps [simp del]

definition str_int :: "int \<Rightarrow> string" where
  "str_int i = (if i < 0 then CHR ''-'' # nat_digits (nat (- i)) else nat_digits (nat i))"

section \<open>tabout\<close>

text \<open>
  The arguments of \<^verbatim>\<open>tabout(*args)\<close>: None, or a primitive value with a string form.
  Floats are left out (their \<^verbatim>\<open>str\<close> is floating-point formatting).
\<close>

datatype py_value = PyNone | PyInt int | PyStr string | PyBool bool

fun str :: "py_value \<Rightarrow> string" where
  "str PyNone = ''None''"
| "str (PyInt i) = str_int i"
| "str (PyStr s) = s"
| "str (PyBool b) = (if b then ''True'' else ''False'')"

definition tabout :: "py_value list \<Rightarrow> string" where
  "tabout args =
     (let output = map (\<lambda>x. if x = PyNone then ''NA'' else str x) args
      in join [TAB] output)"

section \<open>read_mq_map\<close>

text \<open>
  Both failures inside the loop are Python's ValueError: the tuple unpacking of a line
  that does not split into three fields, and \<^verbatim>\<open>int()\<close> on text that is not an integer.
  The tag keeps the two raise sites apart. \<^verbatim>\<open>open\<close> on a missing file raises IOError.
\<close>

datatype value_error = Unpack | InvalidLiteral

datatype py_error = IOError | ValueError value_error

text \<open>The file system as far as \<^verbatim>\<open>open(mapname, 'r')\<close> sees it: a path has a content or not.\<close>

type_synonym filesystem = "string \<Rightarrow> string option"

text \<open>\<^verbatim>\<open>for line in f\<close>: the content cut after every newline, the newline kept.\<close>

fun file_lines :: "string \<Rightarrow> string list" where
  "file_lines [] = []"
| "file_lines (c # cs) =
     (if c = NL then [c] # file_lines cs
      else (case file_lines cs of
              [] \<Rightarrow> [[c]]
            | l # ls \<Rightarrow> (c # l) # ls))"

text \<open>
  Slice bounds as \<^verbatim>\<open>PySlice_GetIndicesEx\<close> computes them for step 1 on a sequence of
  length \<open>n\<close>: a negative bound counts from the end, and the result is clamped to
  \<open>[0, n]\<close>.
\<close>

definition slice_bound :: "int \<Rightarrow> int \<Rightarrow> int" where
  "slice_bound i n =
     (if i < 0 then (if i + n < 0 then 0 else i + n)
      else if i \<ge> n then n else i)"

text \<open>bitarray's loop for a bool assigned to a slice: \<open>k\<close> bits set from index \<open>j\<close> on.\<close>

fun setrange :: "bool list \<Rightarrow> nat \<Rightarrow> nat \<Rightarrow> bool list" where
  "setrange m j 0 = m"
| "setrange m j (Suc k) = setrange (m[j := True]) (Suc j) k"

text \<open>\<^verbatim>\<open>mqmap[a:b] = True\<close>.\<close>

definition setslice_true :: "bool list \<Rightarrow> int \<Rightarrow> int \<Rightarrow> bool list" where
  "setslice_true m a b =
     (let n = int (length m);
          start = slice_bound a n;
          stop = slice_bound b n;
          slicelength = (if stop < start then 0 else stop - start)
      in setrange m (nat start) (nat slicelength))"

text \<open>The body of the loop, on the mask so far and one line.\<close>

definition mq_step :: "string \<Rightarrow> bool list \<Rightarrow> string \<Rightarrow> py_error + bool list" where
  "mq_step chromosome mqmap line =
     (case split TAB (strip line) of
        [chrom, start, stop] \<Rightarrow>
          if chrom = chromosome then
            (case py_int start of
               None \<Rightarrow> Inl (ValueError InvalidLiteral)
             | Some a \<Rightarrow>
                 (case py_int stop of
                    None \<Rightarrow> Inl (ValueError InvalidLiteral)
                  | Some b \<Rightarrow> Inr (setslice_true mqmap a b)))
          else Inr mqmap
      | _ \<Rightarrow> Inl (ValueError Unpack))"

fun mq_loop :: "string \<Rightarrow> bool list \<Rightarrow> string list \<Rightarrow> py_error + bool list" where
  "mq_loop chromosome mqmap [] = Inr mqmap"
| "mq_loop chromosome mqmap (line # rest) =
     (case mq_step chromosome mqmap line of
        Inl e \<Rightarrow> Inl e
      | Inr mqmap' \<Rightarrow> mq_loop chromosome mqmap' rest)"

text \<open>
  \<^verbatim>\<open>bitarray([0] * length)\<close>: a negative \<open>length\<close> gives the empty list. The
  parameter \<open>length\<close> of the source is \<open>len\<close> here (\<open>length\<close> is the list function).
\<close>

definition new_mask :: "int \<Rightarrow> bool list" where
  "new_mask len = replicate (nat len) False"

definition read_mq_map :: "filesystem \<Rightarrow> string \<Rightarrow> string \<Rightarrow> int \<Rightarrow> py_error + bool list" where
  "read_mq_map fs mapname chromosome len =
     (let mqmap = new_mask len
      in case fs mapname of
           None \<Rightarrow> Inl IOError
         | Some content \<Rightarrow> mq_loop chromosome mqmap (file_lines content))"

section \<open>RemoveDir\<close>

text \<open>
  What \<^verbatim>\<open>RemoveDir\<close> touches: the disk, through \<^verbatim>\<open>os.rmdir\<close>, and the text written
  to stderr. \<^verbatim>\<open>os.rmdir\<close> belongs to the operating system and is a parameter: it
  removes the directory (the new disk) or raises OSError.
\<close>

datatype os_error = OSError

record 'd world =
  disk :: 'd
  stderr :: string

text \<open>A call returns, or raises SystemExit with a status (\<^verbatim>\<open>exit(1)\<close>).\<close>

datatype 'w outcome = Returns 'w | SystemExit int 'w

text \<open>
  The message is printed as it stands in the source: the \<^verbatim>\<open>%s\<close> is never filled in.
\<close>

definition RemoveDir ::
  "('d \<Rightarrow> string \<Rightarrow> os_error + 'd) \<Rightarrow> 'd world \<Rightarrow> string \<Rightarrow> 'd world outcome" where
  "RemoveDir os_rmdir w path =
     (case os_rmdir (disk w) path of
        Inr d' \<Rightarrow> Returns (w\<lparr>disk := d'\<rparr>)
      | Inl OSError \<Rightarrow>
          SystemExit 1
            (w\<lparr>stderr := stderr w @ ''%s does not exist. Could not remove.'' @ [NL]\<rparr>))"

text \<open>
  A small \<^verbatim>\<open>os.rmdir\<close> for the examples: the disk is the list of its empty
  directories, and removing anything else fails.
\<close>

definition rmdir_of_empty_dirs :: "string list \<Rightarrow> string \<Rightarrow> os_error + string list" where
  "rmdir_of_empty_dirs d path = (if path \<in> set d then Inr (removeAll path d) else Inl OSError)"

section \<open>The vocabulary of the specification\<close>

text \<open>The fields the loop unpacks from a line.\<close>

definition line_fields :: "string \<Rightarrow> string list" where
  "line_fields line = split TAB (strip line)"

text \<open>
  The tab-separated fields of a line as it stands in the file, its terminator aside:
  nothing else is stripped.
\<close>

definition raw_fields :: "string \<Rightarrow> string list" where
  "raw_fields line = split TAB (takeWhile (\<lambda>c. c \<noteq> NL) line)"

text \<open>
  A line that does not split into exactly three fields once \<^verbatim>\<open>strip\<close> has removed
  the whitespace, tabs included, at both of its ends.
\<close>

definition malformed :: "string \<Rightarrow> bool" where
  "malformed line = (length (line_fields line) \<noteq> 3)"

text \<open>A line of three fields whose chromosome field equals the target chromosome.\<close>

definition matching :: "string \<Rightarrow> string \<Rightarrow> bool" where
  "matching chromosome line =
     (case line_fields line of
        [chrom, start, stop] \<Rightarrow> chrom = chromosome
      | _ \<Rightarrow> False)"

text \<open>A line of three fields whose chromosome field differs from the target chromosome.\<close>

definition other_chromosome :: "string \<Rightarrow> string \<Rightarrow> bool" where
  "other_chromosome chromosome line =
     (case line_fields line of
        [chrom, start, stop] \<Rightarrow> chrom \<noteq> chromosome
      | _ \<Rightarrow> False)"

text \<open>The pair (start, stop) of a line of three fields whose last two are integers.\<close>

definition line_range :: "string \<Rightarrow> (int \<times> int) option" where
  "line_range line =
     (case line_fields line of
        [chrom, start, stop] \<Rightarrow>
          (case py_int start of
             None \<Rightarrow> None
           | Some a \<Rightarrow> (case py_int stop of None \<Rightarrow> None | Some b \<Rightarrow> Some (a, b)))
      | _ \<Rightarrow> None)"

text \<open>
  A line the loop accepts: three fields, and integers in the last two when the
  chromosome matches.
\<close>

definition line_ok :: "string \<Rightarrow> string \<Rightarrow> bool" where
  "line_ok chromosome line =
     (\<not> malformed line \<and> (matching chromosome line \<longrightarrow> line_range line \<noteq> None))"

definition well_formed :: "string \<Rightarrow> string list \<Rightarrow> bool" where
  "well_formed chromosome lines = list_all (line_ok chromosome) lines"

text \<open>Coordinates are 0-based offsets: no matching line has a negative start or stop.\<close>

definition coords_nonneg :: "string \<Rightarrow> string list \<Rightarrow> bool" where
  "coords_nonneg chromosome lines =
     list_all (\<lambda>line. matching chromosome line \<longrightarrow>
                 (case line_range line of
                    None \<Rightarrow> True
                  | Some r \<Rightarrow> 0 \<le> fst r \<and> 0 \<le> snd r)) lines"

text \<open>Every matching line has \<open>0 \<le> start \<le> stop \<le> len\<close>.\<close>

definition coords_in_range :: "string \<Rightarrow> int \<Rightarrow> string list \<Rightarrow> bool" where
  "coords_in_range chromosome len lines =
     list_all (\<lambda>line. matching chromosome line \<longrightarrow>
                 (case line_range line of
                    None \<Rightarrow> True
                  | Some r \<Rightarrow> 0 \<le> fst r \<and> fst r \<le> snd r \<and> snd r \<le> len)) lines"

text \<open>Position \<open>p\<close> lies in \<open>[start, stop)\<close> of at least one matching line.\<close>

definition covered :: "string \<Rightarrow> string list \<Rightarrow> nat \<Rightarrow> bool" where
  "covered chromosome lines p =
     list_ex (\<lambda>line. matching chromosome line \<and>
                (case line_range line of
                   None \<Rightarrow> False
                 | Some r \<Rightarrow> fst r \<le> int p \<and> int p < snd r)) lines"

text \<open>Position \<open>p\<close> of a mask of \<open>n\<close> bits lies in the slice \<open>[start:stop]\<close>.\<close>

definition in_slice :: "nat \<Rightarrow> nat \<Rightarrow> int \<times> int \<Rightarrow> bool" where
  "in_slice n p r =
     (slice_bound (fst r) (int n) \<le> int p \<and> int p < slice_bound (snd r) (int n))"

definition sets_bit :: "string \<Rightarrow> nat \<Rightarrow> nat \<Rightarrow> string \<Rightarrow> bool" where
  "sets_bit chromosome n p line =
     (matching chromosome line \<and>
      (case line_range line of None \<Rightarrow> False | Some r \<Rightarrow> in_slice n p r))"

text \<open>
  FormatTabDelimited in the specification's words: every value rendered, \<open>NA\<close> for an
  absent one, and one tab before each value after the first.
\<close>

definition rendered :: "py_value \<Rightarrow> string" where
  "rendered v = (case v of PyNone \<Rightarrow> ''NA'' | _ \<Rightarrow> str v)"

definition FormatTabDelimited :: "py_value list \<Rightarrow> string" where
  "FormatTabDelimited vs =
     (case vs of
        [] \<Rightarrow> []
      | v # ws \<Rightarrow> rendered v @ concat (map (\<lambda>w. TAB # rendered w) ws))"

subsection \<open>Example inputs\<close>

definition record_line :: "string \<Rightarrow> string \<Rightarrow> string \<Rightarrow> string" where
  "record_line chrom start stop = chrom @ [TAB] @ start @ [TAB] @ stop @ [NL]"

text \<open>A file system holding one file, \<open>map.txt\<close>.\<close>

definition one_file :: "string \<Rightarrow> filesystem" where
  "one_file content = (\<lambda>path. if path = ''map.txt'' then Some content else None)"

section \<open>The range-set operation\<close>

lemma length_setrange: "length (setrange m j k) = length m"
  by (induction m j k rule: setrange.induct) simp_all

lemma nth_setrange:
  "p < length m \<Longrightarrow> setrange m j k ! p = (m ! p \<or> (j \<le> p \<and> p < j + k))"
proof (induction m j k rule: setrange.induct)
  case (1 m j)
  then show ?case by auto
next
  case (2 m j k)
  from "2.prems" have "p < length (m[j := True])" by simp
  from "2.IH" [OF this]
  have "setrange m j (Suc k) ! p = (m[j := True] ! p \<or> (Suc j \<le> p \<and> p < Suc j + k))"
    by simp
  also have "\<dots> = (m ! p \<or> (j \<le> p \<and> p < j + Suc k))"
    using "2.prems" by (cases "p = j") (auto simp: nth_list_update)
  finally show ?case .
qed

lemma slice_bound_range: "0 \<le> n \<Longrightarrow> 0 \<le> slice_bound i n \<and> slice_bound i n \<le> n"
  by (simp add: slice_bound_def)

lemma length_setslice_true: "length (setslice_true m a b) = length m"
  by (simp add: setslice_true_def Let_def length_setrange)

lemma nth_setslice_true:
  assumes "p < length m"
  shows "setslice_true m a b ! p = (m ! p \<or> in_slice (length m) p (a, b))"
proof -
  let ?n = "int (length m)"
  have lo: "0 \<le> slice_bound a ?n" and hi: "0 \<le> slice_bound b ?n"
    using slice_bound_range [of ?n] by simp_all
  show ?thesis
    using assms lo hi
    by (auto simp: setslice_true_def Let_def nth_setrange in_slice_def)
qed

section \<open>One line\<close>

lemma mq_step_malformed:
  "malformed line \<Longrightarrow> mq_step chromosome m line = Inl (ValueError Unpack)"
  by (auto simp: malformed_def line_fields_def mq_step_def split: list.splits)

lemma mq_step_other:
  "\<not> malformed line \<Longrightarrow> \<not> matching chromosome line \<Longrightarrow> mq_step chromosome m line = Inr m"
  by (auto simp: malformed_def matching_def line_fields_def mq_step_def split: list.splits)

lemma mq_step_bad_int:
  "matching chromosome line \<Longrightarrow> line_range line = None \<Longrightarrow>
   mq_step chromosome m line = Inl (ValueError InvalidLiteral)"
  by (auto simp: matching_def line_range_def line_fields_def mq_step_def
           split: list.splits option.splits)

lemma mq_step_range:
  "matching chromosome line \<Longrightarrow> line_range line = Some (a, b) \<Longrightarrow>
   mq_step chromosome m line = Inr (setslice_true m a b)"
  by (auto simp: matching_def line_range_def line_fields_def mq_step_def
           split: list.splits option.splits)

lemma other_chromosome_iff:
  "other_chromosome chromosome line = (\<not> malformed line \<and> \<not> matching chromosome line)"
  by (auto simp: other_chromosome_def malformed_def matching_def split: list.splits)

lemma mq_step_ok:
  assumes "line_ok chromosome line"
  shows "\<exists>m'. mq_step chromosome m line = Inr m' \<and> length m' = length m \<and>
           (\<forall>p<length m. m' ! p = (m ! p \<or> sets_bit chromosome (length m) p line))"
proof (cases "matching chromosome line")
  case True
  with assms obtain a b where r: "line_range line = Some (a, b)"
    by (auto simp: line_ok_def)
  show ?thesis
    using True r
    by (simp add: mq_step_range length_setslice_true nth_setslice_true sets_bit_def)
next
  case False
  with assms show ?thesis
    by (simp add: line_ok_def mq_step_other sets_bit_def)
qed

lemma mq_step_not_ok:
  assumes "\<not> line_ok chromosome line"
  shows "\<exists>r. mq_step chromosome m line = Inl (ValueError r)"
proof (cases "malformed line")
  case True
  then show ?thesis by (simp add: mq_step_malformed)
next
  case False
  with assms have "matching chromosome line" and "line_range line = None"
    unfolding line_ok_def by blast+
  then show ?thesis by (simp add: mq_step_bad_int)
qed

lemma mq_step_length:
  "mq_step chromosome m line = Inr m' \<Longrightarrow> length m' = length m"
proof (cases "line_ok chromosome line")
  case True
  assume "mq_step chromosome m line = Inr m'"
  with mq_step_ok [OF True, of m] show ?thesis by auto
next
  case False
  assume "mq_step chromosome m line = Inr m'"
  with mq_step_not_ok [OF False, of m] show ?thesis by auto
qed

section \<open>The loop\<close>

lemma mq_loop_well_formed:
  "well_formed chromosome ls \<Longrightarrow>
   \<exists>m'. mq_loop chromosome m ls = Inr m' \<and> length m' = length m \<and>
     (\<forall>p<length m. m' ! p = (m ! p \<or> list_ex (sets_bit chromosome (length m) p) ls))"
proof (induction ls arbitrary: m)
  case Nil
  then show ?case by simp
next
  case (Cons l ls)
  from Cons.prems have ok: "line_ok chromosome l" and wf: "well_formed chromosome ls"
    by (simp_all add: well_formed_def)
  from mq_step_ok [OF ok, of m] obtain m1 where
    s: "mq_step chromosome m l = Inr m1" and len1: "length m1 = length m" and
    n1: "\<forall>p<length m. m1 ! p = (m ! p \<or> sets_bit chromosome (length m) p l)"
    by blast
  from Cons.IH [OF wf, of m1] obtain m2 where
    r: "mq_loop chromosome m1 ls = Inr m2" and len2: "length m2 = length m1" and
    n2: "\<forall>p<length m1. m2 ! p = (m1 ! p \<or> list_ex (sets_bit chromosome (length m1) p) ls)"
    by blast
  have "mq_loop chromosome m (l # ls) = Inr m2" using s r by simp
  moreover have "length m2 = length m" using len1 len2 by simp
  moreover have "\<forall>p<length m. m2 ! p = (m ! p \<or> list_ex (sets_bit chromosome (length m) p) (l # ls))"
    using n1 n2 len1 by auto
  ultimately show ?case by blast
qed

lemma mq_loop_not_well_formed:
  "\<not> well_formed chromosome ls \<Longrightarrow> \<exists>r. mq_loop chromosome m ls = Inl (ValueError r)"
proof (induction ls arbitrary: m)
  case Nil
  then show ?case by (simp add: well_formed_def)
next
  case (Cons l ls)
  show ?case
  proof (cases "line_ok chromosome l")
    case True
    with Cons.prems have nwf: "\<not> well_formed chromosome ls" by (simp add: well_formed_def)
    from mq_step_ok [OF True, of m] obtain m1 where "mq_step chromosome m l = Inr m1" by blast
    with Cons.IH [OF nwf, of m1] show ?thesis by simp
  next
    case False
    from mq_step_not_ok [OF False, of m] show ?thesis by auto
  qed
qed

lemma mq_loop_Inr_well_formed:
  "mq_loop chromosome m ls = Inr m' \<Longrightarrow> well_formed chromosome ls"
  using mq_loop_not_well_formed [of chromosome ls m] by auto

lemma mq_loop_first_error_unpack:
  "list_ex malformed ls \<Longrightarrow>
   list_all (\<lambda>l. matching chromosome l \<longrightarrow> line_range l \<noteq> None) ls \<Longrightarrow>
   mq_loop chromosome m ls = Inl (ValueError Unpack)"
proof (induction ls arbitrary: m)
  case Nil
  then show ?case by simp
next
  case (Cons l ls)
  show ?case
  proof (cases "malformed l")
    case True
    then show ?thesis by (simp add: mq_step_malformed)
  next
    case False
    with Cons.prems have ok: "line_ok chromosome l" by (simp add: line_ok_def)
    from mq_step_ok [OF ok, of m] obtain m1 where s: "mq_step chromosome m l = Inr m1" by blast
    from False Cons.prems have "list_ex malformed ls"
      and "list_all (\<lambda>l. matching chromosome l \<longrightarrow> line_range l \<noteq> None) ls" by simp_all
    from Cons.IH [OF this, of m1] s show ?thesis by simp
  qed
qed

lemma mq_loop_filter_other:
  "mq_loop chromosome m (filter (\<lambda>l. \<not> other_chromosome chromosome l) ls) =
   mq_loop chromosome m ls"
proof (induction ls arbitrary: m)
  case Nil
  then show ?case by simp
next
  case (Cons l ls)
  show ?case
  proof (cases "other_chromosome chromosome l")
    case True
    then have "mq_step chromosome m l = Inr m"
      by (simp add: other_chromosome_iff mq_step_other)
    with True Cons.IH show ?thesis by simp
  next
    case False
    with Cons.IH show ?thesis by (simp split: sum.splits)
  qed
qed

lemma read_mq_map_loop:
  "fs mapname = Some content \<Longrightarrow>
   read_mq_map fs mapname chromosome len =
     mq_loop chromosome (new_mask len) (file_lines content)"
  by (simp add: read_mq_map_def)

section \<open>Coordinates inside the mask\<close>

lemma in_slice_nonneg:
  "0 \<le> a \<Longrightarrow> 0 \<le> b \<Longrightarrow> p < n \<Longrightarrow> in_slice n p (a, b) = (a \<le> int p \<and> int p < b)"
  by (auto simp: in_slice_def slice_bound_def)

lemma sets_bit_covered:
  "coords_nonneg chromosome ls \<Longrightarrow> p < n \<Longrightarrow>
   list_ex (sets_bit chromosome n p) ls = covered chromosome ls p"
proof (induction ls)
  case Nil
  then show ?case by (simp add: covered_def)
next
  case (Cons l ls)
  from Cons.prems have nn: "coords_nonneg chromosome ls"
    by (simp add: coords_nonneg_def)
  have head: "sets_bit chromosome n p l =
      (matching chromosome l \<and>
       (case line_range l of None \<Rightarrow> False | Some r \<Rightarrow> fst r \<le> int p \<and> int p < snd r))"
  proof (cases "matching chromosome l")
    case False
    then show ?thesis by (simp add: sets_bit_def)
  next
    case True
    show ?thesis
    proof (cases "line_range l")
      case None
      then show ?thesis by (simp add: sets_bit_def)
    next
      case (Some r)
      obtain a b where r: "r = (a, b)" by (cases r)
      from Cons.prems(1) True Some r have "0 \<le> a" "0 \<le> b"
        by (simp_all add: coords_nonneg_def)
      with True Some r Cons.prems(2) show ?thesis
        by (simp add: sets_bit_def in_slice_nonneg)
    qed
  qed
  from Cons.IH [OF nn Cons.prems(2)] head show ?case
    by (simp add: covered_def)
qed

section \<open>Lines up to their surrounding whitespace\<close>

lemma strip_line_fields: "strip l = strip l' \<Longrightarrow> line_fields l = line_fields l'"
  by (simp only: line_fields_def)

lemma strip_line_ok:
  assumes "strip l = strip l'"
  shows "line_ok chromosome l = line_ok chromosome l'"
  unfolding line_ok_def malformed_def matching_def line_range_def
    strip_line_fields [OF assms] ..

lemma strip_sets_bit:
  assumes "strip l = strip l'"
  shows "sets_bit chromosome n p l = sets_bit chromosome n p l'"
  unfolding sets_bit_def matching_def line_range_def strip_line_fields [OF assms] ..

lemma list_all_strip_imp:
  assumes "set (map strip ls) = set (map strip ls')"
    and "\<And>l l'. strip l = strip l' \<Longrightarrow> P l = P l'"
    and "list_all P ls"
  shows "list_all P ls'"
  unfolding list_all_iff
proof
  fix l' assume "l' \<in> set ls'"
  then have "strip l' \<in> set (map strip ls)" using assms(1) by simp
  then obtain l where l: "l \<in> set ls" "strip l = strip l'" by auto
  from assms(3) l(1) have "P l" by (simp add: list_all_iff)
  with assms(2) [OF l(2)] show "P l'" by simp
qed

lemma list_all_strip:
  assumes "set (map strip ls) = set (map strip ls')"
    and "\<And>l l'. strip l = strip l' \<Longrightarrow> P l = P l'"
  shows "list_all P ls = list_all P ls'"
  using list_all_strip_imp [of ls ls' P] list_all_strip_imp [of ls' ls P] assms by blast

lemma list_ex_strip:
  assumes "set (map strip ls) = set (map strip ls')"
    and "\<And>l l'. strip l = strip l' \<Longrightarrow> P l = P l'"
  shows "list_ex P ls = list_ex P ls'"
proof -
  have "\<And>l l'. strip l = strip l' \<Longrightarrow> (\<not> P l) = (\<not> P l')"
    using assms(2) by blast
  from list_all_strip [OF assms(1), of "\<lambda>l. \<not> P l", OF this]
  have "list_all (\<lambda>l. \<not> P l) ls = list_all (\<lambda>l. \<not> P l) ls'" .
  then show ?thesis unfolding list_all_iff list_ex_iff by blast
qed

section \<open>Joining with tabs\<close>

lemma join_tab_Cons: "join [TAB] (x # xs) = x @ concat (map (\<lambda>w. TAB # w) xs)"
  by (induction xs arbitrary: x) simp_all

section \<open>Properties of read_mq_map\<close>

text \<open>
  C2. On a well-formed file \<^verbatim>\<open>read_mq_map\<close> returns a mask, and any mask it returns has
  exactly \<open>len\<close> positions (none for a negative \<open>len\<close>); the freshly constructed mask has
  \<open>len\<close> positions, all false; the slice assignment and the loop body keep the length.
\<close>

theorem read_mq_map_length:
  "(fs mapname = Some content \<and> well_formed chromosome (file_lines content) \<longrightarrow>
      (\<exists>mqmap. read_mq_map fs mapname chromosome len = Inr mqmap)) \<and>
   (read_mq_map fs mapname chromosome len = Inr mqmap \<longrightarrow> length mqmap = nat len) \<and>
   length (new_mask len) = nat len \<and>
   (\<forall>p<nat len. new_mask len ! p = False) \<and>
   length (setslice_true m a b) = length m \<and>
   (mq_step chromosome m line = Inr m' \<longrightarrow> length m' = length m)"
proof -
  have ret: "\<exists>mqmap. read_mq_map fs mapname chromosome len = Inr mqmap"
    if "fs mapname = Some content" and "well_formed chromosome (file_lines content)"
    using mq_loop_well_formed [OF that(2), of "new_mask len"]
      read_mq_map_loop [of fs mapname content chromosome len] that(1)
    by auto
  have len: "length mqmap = nat len" if r: "read_mq_map fs mapname chromosome len = Inr mqmap"
  proof (cases "fs mapname")
    case None
    with r show ?thesis by (simp add: read_mq_map_def)
  next
    case (Some c)
    with r have l: "mq_loop chromosome (new_mask len) (file_lines c) = Inr mqmap"
      by (simp add: read_mq_map_def)
    from mq_loop_well_formed [OF mq_loop_Inr_well_formed [OF l], of "new_mask len"] l
    show ?thesis by (auto simp: new_mask_def)
  qed
  show ?thesis
    using ret len by (simp add: new_mask_def length_setslice_true mq_step_length)
qed

theorem read_mq_map_length_witness:
  "one_file (record_line ''chr1'' ''2'' ''4'') ''map.txt'' = Some (record_line ''chr1'' ''2'' ''4'') \<and>
   well_formed ''chr1'' (file_lines (record_line ''chr1'' ''2'' ''4'')) \<and>
   read_mq_map (one_file (record_line ''chr1'' ''2'' ''4'')) ''map.txt'' ''chr1'' 6
     = Inr [False, False, True, True, False, False] \<and>
   length [False, False, True, True, False, False] = nat 6 \<and>
   new_mask 6 ! 3 = False \<and>
   mq_step ''chr1'' [False, False] (record_line ''chr1'' ''1'' ''9'') = Inr [False, True]"
proof -
  have f: "one_file (record_line ''chr1'' ''2'' ''4'') ''map.txt'' = Some (record_line ''chr1'' ''2'' ''4'')"
    by (simp add: one_file_def)
  have w: "well_formed ''chr1'' (file_lines (record_line ''chr1'' ''2'' ''4''))"
    by code_simp
  have r: "read_mq_map (one_file (record_line ''chr1'' ''2'' ''4'')) ''map.txt'' ''chr1'' 6
     = Inr [False, False, True, True, False, False]"
    by code_simp
  have s: "mq_step ''chr1'' [False, False] (record_line ''chr1'' ''1'' ''9'') = Inr [False, True]"
    by code_simp
  from read_mq_map_length [of "one_file (record_line ''chr1'' ''2'' ''4'')" "''map.txt''"
      "record_line ''chr1'' ''2'' ''4''" "''chr1''" 6 "[False, False, True, True, False, False]"
      "[False, False]" 1 9 "record_line ''chr1'' ''1'' ''9''" "[False, True]"]
  have "\<forall>p<nat 6. new_mask 6 ! p = False" by blast
  then have "new_mask 6 ! 3 = False" by simp
  then show ?thesis using f w r s by simp
qed

text \<open>
  C1. On a well-formed file (every line splits into three fields, the matching lines
  carry integers, and these coordinates are not negative) and for \<open>0 \<le> len\<close>,
  \<^verbatim>\<open>read_mq_map\<close> returns a mask of \<open>len\<close> positions in which position \<open>p\<close> is true
  exactly when \<open>p\<close> lies in \<open>[start, stop)\<close> of at least one matching line. Overlapping
  ranges are a union: \<open>covered\<close> asks for one covering line, however many there are.
\<close>

theorem read_mq_map_mask:
  assumes "fs mapname = Some content"
    and "well_formed chromosome (file_lines content)"
    and "coords_nonneg chromosome (file_lines content)"
    and "0 \<le> len"
  shows "\<exists>mqmap. read_mq_map fs mapname chromosome len = Inr mqmap \<and>
           int (length mqmap) = len \<and>
           (\<forall>p<length mqmap. mqmap ! p = covered chromosome (file_lines content) p)"
proof -
  from mq_loop_well_formed [OF assms(2), of "new_mask len"] obtain m' where
    l: "mq_loop chromosome (new_mask len) (file_lines content) = Inr m'" and
    len: "length m' = length (new_mask len)" and
    bits: "\<forall>p<length (new_mask len). m' ! p =
             (new_mask len ! p \<or>
              list_ex (sets_bit chromosome (length (new_mask len)) p) (file_lines content))"
    by blast
  have r: "read_mq_map fs mapname chromosome len = Inr m'"
    using read_mq_map_loop [of fs mapname content chromosome len] assms(1) l by simp
  have n: "length m' = nat len" using len by (simp add: new_mask_def)
  have "m' ! p = covered chromosome (file_lines content) p" if "p < length m'" for p
  proof -
    from that n have p: "p < nat len" by simp
    then have "new_mask len ! p = False" by (simp add: new_mask_def)
    moreover from bits p
    have "m' ! p = (new_mask len ! p \<or>
            list_ex (sets_bit chromosome (nat len) p) (file_lines content))"
      by (simp add: new_mask_def)
    ultimately show ?thesis
      using sets_bit_covered [OF assms(3) p] by simp
  qed
  with r n assms(4) show ?thesis by auto
qed

theorem read_mq_map_mask_witness:
  "one_file (record_line ''chr1'' ''1'' ''4'' @ record_line ''chrX'' ''0'' ''zz''
             @ record_line ''chr1'' ''3'' ''9'') ''map.txt''
     = Some (record_line ''chr1'' ''1'' ''4'' @ record_line ''chrX'' ''0'' ''zz''
             @ record_line ''chr1'' ''3'' ''9'') \<and>
   well_formed ''chr1'' (file_lines (record_line ''chr1'' ''1'' ''4''
             @ record_line ''chrX'' ''0'' ''zz'' @ record_line ''chr1'' ''3'' ''9'')) \<and>
   coords_nonneg ''chr1'' (file_lines (record_line ''chr1'' ''1'' ''4''
             @ record_line ''chrX'' ''0'' ''zz'' @ record_line ''chr1'' ''3'' ''9'')) \<and>
   (0::int) \<le> 6 \<and>
   (\<exists>mqmap. read_mq_map (one_file (record_line ''chr1'' ''1'' ''4''
             @ record_line ''chrX'' ''0'' ''zz'' @ record_line ''chr1'' ''3'' ''9''))
               ''map.txt'' ''chr1'' 6 = Inr mqmap \<and>
            int (length mqmap) = 6 \<and>
            (\<forall>p<length mqmap. mqmap ! p =
               covered ''chr1'' (file_lines (record_line ''chr1'' ''1'' ''4''
                 @ record_line ''chrX'' ''0'' ''zz'' @ record_line ''chr1'' ''3'' ''9'')) p))"
proof -
  let ?c = "record_line ''chr1'' ''1'' ''4'' @ record_line ''chrX'' ''0'' ''zz''
             @ record_line ''chr1'' ''3'' ''9''"
  have f: "one_file ?c ''map.txt'' = Some ?c" by (simp add: one_file_def)
  have w: "well_formed ''chr1'' (file_lines ?c)" by code_simp
  have c: "coords_nonneg ''chr1'' (file_lines ?c)" by code_simp
  have z: "(0::int) \<le> 6" by simp
  from read_mq_map_mask [of "one_file ?c" "''map.txt''" ?c "''chr1''" 6, OF f w c z] f w c
  show ?thesis by simp
qed

text \<open>
  C3. Two files whose lines, whitespace at both ends of a line aside (as \<^verbatim>\<open>strip\<close>
  removes it, the line terminator included), are permutations of each other: when
  \<^verbatim>\<open>read_mq_map\<close> returns a mask for one, it returns the same mask for the other.
\<close>

theorem read_mq_map_order_independent:
  assumes "fs mapname = Some content"
    and "fs' mapname' = Some content'"
    and "mset (map strip (file_lines content')) = mset (map strip (file_lines content))"
    and "read_mq_map fs mapname chromosome len = Inr mqmap"
  shows "read_mq_map fs' mapname' chromosome len = Inr mqmap"
proof -
  let ?ls = "file_lines content" and ?ls' = "file_lines content'"
  let ?m = "new_mask len"
  from assms(3) have s: "set (map strip ?ls) = set (map strip ?ls')"
    by (metis set_mset_mset)
  from assms(1,4) have l: "mq_loop chromosome ?m ?ls = Inr mqmap"
    using read_mq_map_loop [of fs mapname content chromosome len] by simp
  then have wf: "well_formed chromosome ?ls" by (rule mq_loop_Inr_well_formed)
  have "list_all (line_ok chromosome) ?ls = list_all (line_ok chromosome) ?ls'"
    using s by (rule list_all_strip) (rule strip_line_ok)
  with wf have wf': "well_formed chromosome ?ls'" by (simp add: well_formed_def)
  from mq_loop_well_formed [OF wf, of ?m] l
  have len: "length mqmap = length ?m"
    and bits: "\<forall>p<length ?m. mqmap ! p =
        (?m ! p \<or> list_ex (sets_bit chromosome (length ?m) p) ?ls)"
    by auto
  from mq_loop_well_formed [OF wf', of ?m] obtain m' where
    l': "mq_loop chromosome ?m ?ls' = Inr m'" and len': "length m' = length ?m" and
    bits': "\<forall>p<length ?m. m' ! p =
        (?m ! p \<or> list_ex (sets_bit chromosome (length ?m) p) ?ls')"
    by blast
  have ex: "list_ex (sets_bit chromosome (length ?m) p) ?ls =
            list_ex (sets_bit chromosome (length ?m) p) ?ls'" for p
    using s by (rule list_ex_strip) (rule strip_sets_bit)
  have "m' = mqmap"
  proof (rule nth_equalityI)
    show "length m' = length mqmap" using len len' by simp
  next
    fix p assume "p < length m'"
    with len' have "p < length ?m" by simp
    with bits bits' ex [of p] show "m' ! p = mqmap ! p" by simp
  qed
  with l' show ?thesis
    using read_mq_map_loop [of fs' mapname' content' chromosome len] assms(2) by simp
qed

theorem read_mq_map_order_independent_witness:
  "one_file (record_line ''chr1'' ''0'' ''2'' @ record_line ''chr1'' ''4'' ''5'') ''map.txt''
     = Some (record_line ''chr1'' ''0'' ''2'' @ record_line ''chr1'' ''4'' ''5'') \<and>
   one_file (record_line ''chr1'' ''4'' ''5'' @ record_line ''chr1'' ''0'' ''2'') ''map.txt''
     = Some (record_line ''chr1'' ''4'' ''5'' @ record_line ''chr1'' ''0'' ''2'') \<and>
   mset (map strip (file_lines (record_line ''chr1'' ''4'' ''5'' @ record_line ''chr1'' ''0'' ''2'')))
     = mset (map strip (file_lines (record_line ''chr1'' ''0'' ''2'' @ record_line ''chr1'' ''4'' ''5''))) \<and>
   read_mq_map (one_file (record_line ''chr1'' ''0'' ''2'' @ record_line ''chr1'' ''4'' ''5''))
     ''map.txt'' ''chr1'' 6 = Inr [True, True, False, False, True, False] \<and>
   read_mq_map (one_file (record_line ''chr1'' ''4'' ''5'' @ record_line ''chr1'' ''0'' ''2''))
     ''map.txt'' ''chr1'' 6 = Inr [True, True, False, False, True, False]"
proof -
  let ?a = "record_line ''chr1'' ''0'' ''2''" and ?b = "record_line ''chr1'' ''4'' ''5''"
  have f: "one_file (?a @ ?b) ''map.txt'' = Some (?a @ ?b)" by (simp add: one_file_def)
  have f': "one_file (?b @ ?a) ''map.txt'' = Some (?b @ ?a)" by (simp add: one_file_def)
  have la: "file_lines (?a @ ?b) = [?a, ?b]" by code_simp
  have lb: "file_lines (?b @ ?a) = [?b, ?a]" by code_simp
  have p: "mset (map strip (file_lines (?b @ ?a))) = mset (map strip (file_lines (?a @ ?b)))"
    unfolding la lb by (simp add: add.commute)
  have r: "read_mq_map (one_file (?a @ ?b)) ''map.txt'' ''chr1'' 6
             = Inr [True, True, False, False, True, False]"
    by code_simp
  from read_mq_map_order_independent [of "one_file (?a @ ?b)" "''map.txt''" "?a @ ?b"
      "one_file (?b @ ?a)" "''map.txt''" "?b @ ?a", OF f f' p r] f f' p r
  show ?thesis by simp
qed

text \<open>
  C4, as the code has it. The claim fails on two counts. The line is stripped before
  it is split, so a line of four tab-separated fields, the last one empty, is accepted
  and sets its range. And a file with a two-field line fails in \<^verbatim>\<open>int()\<close>, not in
  the unpacking, when a matching line with a start that is no integer comes first.
\<close>

theorem malformed_record_counterexample:
  "raw_fields (''chr1'' @ [TAB] @ ''0'' @ [TAB] @ ''3'' @ [TAB] @ [NL])
     = [''chr1'', ''0'', ''3'', []] \<and>
   read_mq_map (one_file (''chr1'' @ [TAB] @ ''0'' @ [TAB] @ ''3'' @ [TAB] @ [NL]))
     ''map.txt'' ''chr1'' 4 = Inr [True, True, True, False] \<and>
   raw_fields (''chr1'' @ [TAB] @ ''10'' @ [NL]) = [''chr1'', ''10''] \<and>
   read_mq_map (one_file (record_line ''chr1'' ''x'' ''5'' @ ''chr1'' @ [TAB] @ ''10'' @ [NL]))
     ''map.txt'' ''chr1'' 10 = Inl (ValueError InvalidLiteral)"
  by code_simp

text \<open>
  C4, amended. When any line of the file, matching or not, does not split into exactly
  three tab-separated fields once \<^verbatim>\<open>strip\<close> has removed the whitespace (tabs
  included) at both of its ends, \<^verbatim>\<open>read_mq_map\<close> returns no mask: it raises
  ValueError. The ValueError is the one of the tuple unpacking when every matching line
  carries integers; otherwise the one of \<^verbatim>\<open>int()\<close> may come first.
\<close>

theorem read_mq_map_malformed_line:
  assumes "fs mapname = Some content"
    and "list_ex malformed (file_lines content)"
  shows "(\<exists>r. read_mq_map fs mapname chromosome len = Inl (ValueError r)) \<and>
         (list_all (\<lambda>l. matching chromosome l \<longrightarrow> line_range l \<noteq> None) (file_lines content)
            \<longrightarrow> read_mq_map fs mapname chromosome len = Inl (ValueError Unpack))"
proof -
  have r: "read_mq_map fs mapname chromosome len =
             mq_loop chromosome (new_mask len) (file_lines content)"
    using read_mq_map_loop [of fs mapname content chromosome len] assms(1) by simp
  from assms(2) have "\<not> well_formed chromosome (file_lines content)"
    by (auto simp: well_formed_def line_ok_def list_all_iff list_ex_iff)
  from mq_loop_not_well_formed [OF this, of "new_mask len"] r
  have "\<exists>r. read_mq_map fs mapname chromosome len = Inl (ValueError r)" by simp
  moreover have "read_mq_map fs mapname chromosome len = Inl (ValueError Unpack)"
    if "list_all (\<lambda>l. matching chromosome l \<longrightarrow> line_range l \<noteq> None) (file_lines content)"
    using mq_loop_first_error_unpack [OF assms(2) that, of "new_mask len"] r by simp
  ultimately show ?thesis by blast
qed

theorem read_mq_map_malformed_line_witness:
  "one_file (record_line ''chr1'' ''0'' ''3'' @ ''chr1'' @ [TAB] @ ''10'' @ [NL]) ''map.txt''
     = Some (record_line ''chr1'' ''0'' ''3'' @ ''chr1'' @ [TAB] @ ''10'' @ [NL]) \<and>
   list_ex malformed (file_lines (record_line ''chr1'' ''0'' ''3'' @ ''chr1'' @ [TAB] @ ''10'' @ [NL])) \<and>
   read_mq_map (one_file (record_line ''chr1'' ''0'' ''3'' @ ''chr1'' @ [TAB] @ ''10'' @ [NL]))
     ''map.txt'' ''chr1'' 10 = Inl (ValueError Unpack) \<and>
   read_mq_map (one_file (record_line ''chr1'' ''0'' ''3'' @ ''chr1'' @ [TAB] @ ''10'' @ [NL]))
     ''map.txt'' ''chr2'' 10 = Inl (ValueError Unpack)"
proof -
  let ?c = "record_line ''chr1'' ''0'' ''3'' @ ''chr1'' @ [TAB] @ ''10'' @ [NL]"
  have f: "one_file ?c ''map.txt'' = Some ?c" by (simp add: one_file_def)
  have m: "list_ex malformed (file_lines ?c)" by code_simp
  have a1: "list_all (\<lambda>l. matching ''chr1'' l \<longrightarrow> line_range l \<noteq> None) (file_lines ?c)"
    by code_simp
  have a2: "list_all (\<lambda>l. matching ''chr2'' l \<longrightarrow> line_range l \<noteq> None) (file_lines ?c)"
    by code_simp
  note t1 = read_mq_map_malformed_line [of "one_file ?c" "''map.txt''" ?c "''chr1''" 10, OF f m]
  note t2 = read_mq_map_malformed_line [of "one_file ?c" "''map.txt''" ?c "''chr2''" 10, OF f m]
  from t1 [THEN conjunct2, THEN mp, OF a1] t2 [THEN conjunct2, THEN mp, OF a2] f m
  show ?thesis by (intro conjI)
qed

text \<open>
  C5, as the code has it. The claim fails: a matching line whose stop exceeds the
  length, whose start is negative or whose start exceeds its stop does not abort the
  load; the slice assignment takes it.
\<close>

theorem range_violation_counterexample:
  "\<not> coords_in_range ''chr1'' 10 (file_lines (record_line ''chr1'' ''5'' ''20'')) \<and>
   read_mq_map (one_file (record_line ''chr1'' ''5'' ''20'')) ''map.txt'' ''chr1'' 10
     = Inr [False, False, False, False, False, True, True, True, True, True] \<and>
   \<not> coords_in_range ''chr1'' 10 (file_lines (record_line ''chr1'' ''-3'' ''9'')) \<and>
   read_mq_map (one_file (record_line ''chr1'' ''-3'' ''9'')) ''map.txt'' ''chr1'' 10
     = Inr [False, False, False, False, False, False, False, True, True, False] \<and>
   \<not> coords_in_range ''chr1'' 10 (file_lines (record_line ''chr1'' ''7'' ''2'')) \<and>
   read_mq_map (one_file (record_line ''chr1'' ''7'' ''2'')) ''map.txt'' ''chr1'' 10
     = Inr [False, False, False, False, False, False, False, False, False, False]"
  by code_simp

text \<open>
  C5, amended. A matching line whose start or stop is not an integer aborts the load
  with ValueError. There is no other check of the coordinates: the load returns a mask
  exactly when every line splits into three fields and every matching line carries
  integers, whatever their values.
\<close>

theorem read_mq_map_unparseable_coordinates:
  assumes "fs mapname = Some content"
  shows "(list_ex (\<lambda>l. matching chromosome l \<and> line_range l = None) (file_lines content)
            \<longrightarrow> (\<exists>r. read_mq_map fs mapname chromosome len = Inl (ValueError r))) \<and>
         ((\<exists>mqmap. read_mq_map fs mapname chromosome len = Inr mqmap) =
            well_formed chromosome (file_lines content))"
proof -
  have r: "read_mq_map fs mapname chromosome len =
             mq_loop chromosome (new_mask len) (file_lines content)"
    using read_mq_map_loop [of fs mapname content chromosome len] assms by simp
  have "\<exists>e. read_mq_map fs mapname chromosome len = Inl (ValueError e)"
    if "list_ex (\<lambda>l. matching chromosome l \<and> line_range l = None) (file_lines content)"
  proof -
    from that have "\<not> well_formed chromosome (file_lines content)"
      by (auto simp: well_formed_def line_ok_def list_all_iff list_ex_iff)
    from mq_loop_not_well_formed [OF this, of "new_mask len"] r show ?thesis by simp
  qed
  moreover have "(\<exists>mqmap. read_mq_map fs mapname chromosome len = Inr mqmap) =
                   well_formed chromosome (file_lines content)"
    using mq_loop_well_formed [of chromosome "file_lines content" "new_mask len"]
      mq_loop_Inr_well_formed [of chromosome "new_mask len" "file_lines content"] r
    by auto
  ultimately show ?thesis by blast
qed

theorem read_mq_map_unparseable_coordinates_witness:
  "one_file (record_line ''chr1'' ''1'' ''x2'') ''map.txt'' = Some (record_line ''chr1'' ''1'' ''x2'') \<and>
   list_ex (\<lambda>l. matching ''chr1'' l \<and> line_range l = None)
     (file_lines (record_line ''chr1'' ''1'' ''x2'')) \<and>
   read_mq_map (one_file (record_line ''chr1'' ''1'' ''x2'')) ''map.txt'' ''chr1'' 10
     = Inl (ValueError InvalidLiteral) \<and>
   \<not> well_formed ''chr1'' (file_lines (record_line ''chr1'' ''1'' ''x2''))"
proof -
  let ?c = "record_line ''chr1'' ''1'' ''x2''"
  have f: "one_file ?c ''map.txt'' = Some ?c" by (simp add: one_file_def)
  have b: "list_ex (\<lambda>l. matching ''chr1'' l \<and> line_range l = None) (file_lines ?c)"
    by code_simp
  have r: "read_mq_map (one_file ?c) ''map.txt'' ''chr1'' 10 = Inl (ValueError InvalidLiteral)"
    by code_simp
  from read_mq_map_unparseable_coordinates [of "one_file ?c" "''map.txt''" ?c "''chr1''" 10, OF f]
    f b r
  show ?thesis by auto
qed

text \<open>
  C6, as the code has it. The claim fails: a line for another chromosome with three
  tab-separated fields, the stop empty (so not an integer), loses its last tab to
  \<^verbatim>\<open>strip\<close>, is unpacked as two fields and aborts a load that returns a mask
  without it.
\<close>

theorem other_chromosome_counterexample:
  "raw_fields (record_line ''chr2'' ''5'' []) = [''chr2'', ''5'', []] \<and>
   py_int [] = None \<and>
   read_mq_map (one_file (record_line ''chr1'' ''1'' ''3'')) ''map.txt'' ''chr1'' 5
     = Inr [False, True, True, False, False] \<and>
   read_mq_map (one_file (record_line ''chr1'' ''1'' ''3'' @ record_line ''chr2'' ''5'' []))
     ''map.txt'' ''chr1'' 5 = Inl (ValueError Unpack)"
  by code_simp

text \<open>
  C6, amended. A line that splits, once stripped, into three fields and whose chromosome
  field differs from the target chromosome has no influence: removing every such line
  from the file leaves the result of \<^verbatim>\<open>read_mq_map\<close> (the mask, or the error) as
  it was, whatever stands in the start and stop fields of these lines.
\<close>

theorem read_mq_map_other_chromosome:
  assumes "fs mapname = Some content"
    and "fs' mapname' = Some content'"
    and "file_lines content' =
           filter (\<lambda>l. \<not> other_chromosome chromosome l) (file_lines content)"
  shows "read_mq_map fs mapname chromosome len = read_mq_map fs' mapname' chromosome len"
  using read_mq_map_loop [of fs mapname content chromosome len]
    read_mq_map_loop [of fs' mapname' content' chromosome len]
    mq_loop_filter_other [of chromosome "new_mask len" "file_lines content"] assms
  by simp

theorem read_mq_map_other_chromosome_witness:
  "one_file (record_line ''chr1'' ''1'' ''3'' @ record_line ''chr2'' ''x'' ''999''
             @ record_line ''chr2'' ''-50'' ''70'') ''map.txt''
     = Some (record_line ''chr1'' ''1'' ''3'' @ record_line ''chr2'' ''x'' ''999''
             @ record_line ''chr2'' ''-50'' ''70'') \<and>
   one_file (record_line ''chr1'' ''1'' ''3'') ''map.txt'' = Some (record_line ''chr1'' ''1'' ''3'') \<and>
   file_lines (record_line ''chr1'' ''1'' ''3'') =
     filter (\<lambda>l. \<not> other_chromosome ''chr1'' l)
       (file_lines (record_line ''chr1'' ''1'' ''3'' @ record_line ''chr2'' ''x'' ''999''
             @ record_line ''chr2'' ''-50'' ''70'')) \<and>
   read_mq_map (one_file (record_line ''chr1'' ''1'' ''3'' @ record_line ''chr2'' ''x'' ''999''
             @ record_line ''chr2'' ''-50'' ''70'')) ''map.txt'' ''chr1'' 5
     = Inr [False, True, True, False, False] \<and>
   read_mq_map (one_file (record_line ''chr1'' ''1'' ''3'')) ''map.txt'' ''chr1'' 5
     = Inr [False, True, True, False, False]"
proof -
  let ?a = "record_line ''chr1'' ''1'' ''3''"
  let ?c = "?a @ record_line ''chr2'' ''x'' ''999'' @ record_line ''chr2'' ''-50'' ''70''"
  have f: "one_file ?c ''map.txt'' = Some ?c" by (simp add: one_file_def)
  have f': "one_file ?a ''map.txt'' = Some ?a" by (simp add: one_file_def)
  have e: "file_lines ?a = filter (\<lambda>l. \<not> other_chromosome ''chr1'' l) (file_lines ?c)"
    by code_simp
  have r: "read_mq_map (one_file ?a) ''map.txt'' ''chr1'' 5 = Inr [False, True, True, False, False]"
    by code_simp
  from read_mq_map_other_chromosome [of "one_file ?c" "''map.txt''" ?c "one_file ?a"
      "''map.txt''" ?a "''chr1''" 5, OF f f' e] f f' e r
  show ?thesis by simp
qed

text \<open>
  C7, as the code has it. The claim fails where it takes every line with start above
  stop for a no-op: a negative stop counts from the end of the mask, so start 1 and
  stop -1 on a mask of five bits set the bits 1 to 3.
\<close>

theorem start_above_stop_counterexample:
  "line_fields (record_line ''chr1'' ''1'' ''-1'') = [''chr1'', ''1'', ''-1''] \<and>
   py_int ''1'' = Some 1 \<and> py_int ''-1'' = Some (- 1) \<and> (- 1 :: int) < 1 \<and>
   mq_step ''chr1'' [False, False, False, False, False] (record_line ''chr1'' ''1'' ''-1'')
     = Inr [False, True, True, True, False]"
  by code_simp

text \<open>
  C7, amended. On a matching line whose start and stop are integers \<open>a\<close> and \<open>b\<close> the loop body
  never raises. On a mask of \<open>n\<close> bits it sets exactly the positions from the effective
  start up to the effective stop, where a bound above \<open>n\<close> counts as \<open>n\<close> and a negative
  bound counts from the end of the mask (not below 0); the other bits keep their value,
  and the mask is unchanged when the effective start is at or past the effective stop,
  as it is whenever \<open>b \<le> a\<close> and the two are on the same side of 0.
\<close>

theorem mq_step_slice_semantics:
  assumes "line_fields line = [chromosome, start, stop]"
    and "py_int start = Some a"
    and "py_int stop = Some b"
    and "n = int (length m)"
    and "lo = (if a < 0 then max 0 (a + n) else min a n)"
    and "hi = (if b < 0 then max 0 (b + n) else min b n)"
  shows "\<exists>m'. mq_step chromosome m line = Inr m' \<and> length m' = length m \<and>
           (\<forall>p<length m. m' ! p = (m ! p \<or> (lo \<le> int p \<and> int p < hi))) \<and>
           (hi \<le> lo \<longrightarrow> m' = m) \<and>
           (b \<le> a \<and> (0 \<le> b \<or> a < 0) \<longrightarrow> m' = m)"
proof -
  let ?m' = "setslice_true m a b"
  have lo: "lo = slice_bound a n" and hi: "hi = slice_bound b n"
    using assms(4,5,6) by (auto simp: slice_bound_def)
  have s: "mq_step chromosome m line = Inr ?m'"
    using assms(1,2,3) by (simp add: mq_step_def line_fields_def)
  have len: "length ?m' = length m" by (rule length_setslice_true)
  have bits: "\<forall>p<length m. ?m' ! p = (m ! p \<or> (lo \<le> int p \<and> int p < hi))"
    using lo hi assms(4) by (simp add: nth_setslice_true in_slice_def)
  have same: "?m' = m" if "hi \<le> lo"
  proof (rule nth_equalityI)
    show "length ?m' = length m" by (rule len)
  next
    fix p assume "p < length ?m'"
    with len bits that show "?m' ! p = m ! p" by auto
  qed
  have "hi \<le> lo" if "b \<le> a \<and> (0 \<le> b \<or> a < 0)"
    using that assms(4,5,6) by auto
  with s len bits same show ?thesis by blast
qed

theorem mq_step_slice_semantics_witness:
  "line_fields (record_line ''chr1'' ''-3'' ''20'') = [''chr1'', ''-3'', ''20''] \<and>
   py_int ''-3'' = Some (- 3) \<and> py_int ''20'' = Some 20 \<and>
   (5::int) = int (length [False, True, False, False, False]) \<and>
   (2::int) = (if (- 3::int) < 0 then max 0 (- 3 + 5) else min (- 3) 5) \<and>
   (5::int) = (if (20::int) < 0 then max 0 (20 + 5) else min 20 5) \<and>
   mq_step ''chr1'' [False, True, False, False, False] (record_line ''chr1'' ''-3'' ''20'')
     = Inr [False, True, True, True, True] \<and>
   (\<exists>m'. mq_step ''chr1'' [False, True, False, False, False] (record_line ''chr1'' ''-3'' ''20'')
            = Inr m' \<and> length m' = 5 \<and> m' ! 0 = False \<and> m' ! 4 = True)"
proof -
  let ?l = "record_line ''chr1'' ''-3'' ''20''"
  let ?m = "[False, True, False, False, False]"
  have f: "line_fields ?l = [''chr1'', ''-3'', ''20'']" by code_simp
  have a: "py_int ''-3'' = Some (- 3)" by code_simp
  have b: "py_int ''20'' = Some 20" by code_simp
  have n: "(5::int) = int (length ?m)" by simp
  have lo: "(2::int) = (if (- 3::int) < 0 then max 0 (- 3 + 5) else min (- 3) 5)" by simp
  have hi: "(5::int) = (if (20::int) < 0 then max 0 (20 + 5) else min 20 5)" by simp
  have r: "mq_step ''chr1'' ?m ?l = Inr [False, True, True, True, True]" by code_simp
  from mq_step_slice_semantics [OF f a b n lo hi] obtain m' where
    s: "mq_step ''chr1'' ?m ?l = Inr m'" and len: "length m' = length ?m" and
    bits: "\<forall>p<length ?m. m' ! p = (?m ! p \<or> (2 \<le> int p \<and> int p < 5))"
    by blast
  from bits have "m' ! 0 = False" and "m' ! 4 = True" by simp_all
  with s len have e: "\<exists>m'. mq_step ''chr1'' ?m ?l = Inr m' \<and> length m' = 5 \<and>
      m' ! 0 = False \<and> m' ! 4 = True"
    by simp
  from f a b n lo hi r e show ?thesis by (intro conjI)
qed

text \<open>
  C8. The examples of the specification: three lines with target \<open>chr1\<close> and length 10;
  the empty file with length 5; and the matching zero-width line \<open>chr1 3 3\<close>, which
  leaves any mask as it is (alone in a file of length 10 it gives the all-false mask).
\<close>

theorem read_mq_map_examples:
  "read_mq_map (one_file (record_line ''chr1'' ''0'' ''3'' @ record_line ''chr2'' ''5'' ''8''
                          @ record_line ''chr1'' ''5'' ''7'')) ''map.txt'' ''chr1'' 10
     = Inr [True, True, True, False, False, True, True, False, False, False] \<and>
   read_mq_map (one_file []) ''map.txt'' ''chr1'' 5 = Inr [False, False, False, False, False] \<and>
   mq_step ''chr1'' m (record_line ''chr1'' ''3'' ''3'') = Inr m \<and>
   read_mq_map (one_file (record_line ''chr1'' ''3'' ''3'')) ''map.txt'' ''chr1'' 10
     = Inr [False, False, False, False, False, False, False, False, False, False]"
proof -
  have 1: "read_mq_map (one_file (record_line ''chr1'' ''0'' ''3'' @ record_line ''chr2'' ''5'' ''8''
                          @ record_line ''chr1'' ''5'' ''7'')) ''map.txt'' ''chr1'' 10
     = Inr [True, True, True, False, False, True, True, False, False, False]"
    by code_simp
  have 2: "read_mq_map (one_file []) ''map.txt'' ''chr1'' 5 = Inr [False, False, False, False, False]"
    by code_simp
  have f: "split TAB (strip (record_line ''chr1'' ''3'' ''3'')) = [''chr1'', ''3'', ''3'']"
    by code_simp
  have i: "py_int ''3'' = Some 3" by code_simp
  have "setslice_true m 3 3 = m"
    by (simp add: setslice_true_def Let_def)
  with f i have 3: "mq_step ''chr1'' m (record_line ''chr1'' ''3'' ''3'') = Inr m"
    by (simp add: mq_step_def)
  have 4: "read_mq_map (one_file (record_line ''chr1'' ''3'' ''3'')) ''map.txt'' ''chr1'' 10
     = Inr [False, False, False, False, False, False, False, False, False, False]"
    by code_simp
  from 1 2 3 4 show ?thesis by (intro conjI)
qed

section \<open>Properties of tabout and RemoveDir\<close>

text \<open>
  C9. \<^verbatim>\<open>tabout\<close> returns its arguments in order, each rendered (\<open>NA\<close> for None, the
  string form otherwise), with exactly one tab between consecutive values: it is
  FormatTabDelimited as the specification words it.
\<close>

theorem tabout_format: "tabout args = FormatTabDelimited args"
proof (cases args)
  case Nil
  then show ?thesis by (simp add: tabout_def FormatTabDelimited_def)
next
  case (Cons v vs)
  have r: "(if x = PyNone then ''NA'' else str x) = rendered x" for x
    by (cases x) (simp_all add: rendered_def)
  have "concat (map (\<lambda>w. TAB # w) (map rendered vs)) = concat (map (\<lambda>w. TAB # rendered w) vs)"
    by (simp add: comp_def)
  with Cons show ?thesis
    by (simp add: tabout_def FormatTabDelimited_def r join_tab_Cons del: join.simps)
qed

text \<open>
  C10. When \<^verbatim>\<open>os.rmdir\<close> raises OSError, \<^verbatim>\<open>RemoveDir\<close> does not return and raises
  nothing the caller could treat as a failed removal: it exits with status 1, the disk
  as \<^verbatim>\<open>os.rmdir\<close> left it. When \<^verbatim>\<open>os.rmdir\<close> succeeds, \<^verbatim>\<open>RemoveDir\<close> returns, the
  disk is the one \<^verbatim>\<open>os.rmdir\<close> produced and nothing is written to stderr.
\<close>

theorem RemoveDir_fail_fast:
  "(os_rmdir (disk w) path = Inl e \<longrightarrow>
      (\<exists>w'. RemoveDir os_rmdir w path = SystemExit 1 w' \<and> disk w' = disk w)) \<and>
   (os_rmdir (disk w) path = Inr d' \<longrightarrow>
      RemoveDir os_rmdir w path = Returns (w\<lparr>disk := d'\<rparr>))"
  by (cases e) (simp add: RemoveDir_def)

theorem RemoveDir_fail_fast_witness:
  "rmdir_of_empty_dirs (disk \<lparr>disk = [''tmp1'', ''tmp2''], stderr = []\<rparr>) ''gone'' = Inl OSError \<and>
   (\<exists>w'. RemoveDir rmdir_of_empty_dirs \<lparr>disk = [''tmp1'', ''tmp2''], stderr = []\<rparr> ''gone''
            = SystemExit 1 w' \<and> disk w' = [''tmp1'', ''tmp2'']) \<and>
   rmdir_of_empty_dirs (disk \<lparr>disk = [''tmp1'', ''tmp2''], stderr = []\<rparr>) ''tmp1'' = Inr [''tmp2''] \<and>
   RemoveDir rmdir_of_empty_dirs \<lparr>disk = [''tmp1'', ''tmp2''], stderr = []\<rparr> ''tmp1''
     = Returns \<lparr>disk = [''tmp2''], stderr = []\<rparr>"
proof -
  let ?w = "\<lparr>disk = [''tmp1'', ''tmp2''], stderr = []\<rparr>"
  have a: "rmdir_of_empty_dirs (disk ?w) ''gone'' = Inl OSError"
    by (simp add: rmdir_of_empty_dirs_def)
  have b: "rmdir_of_empty_dirs (disk ?w) ''tmp1'' = Inr [''tmp2'']"
    by (simp add: rmdir_of_empty_dirs_def)
  from RemoveDir_fail_fast [of rmdir_of_empty_dirs ?w "''gone''" OSError "[''tmp2'']"]
    RemoveDir_fail_fast [of rmdir_of_empty_dirs ?w "''tmp1''" OSError "[''tmp2'']"] a b
  show ?thesis by simp
qed

end
